theory Spec2Isabelle
  imports Main
begin

section \<open>Python values, strings and exceptions\<close>

text \<open>
  A grid cell and a stack slot of the interpreter hold a Python object that is either an
  integer or \<open>None\<close> (\<open>get\<close> returns \<open>None\<close> for a cell outside the grid, and the
  push and pop instructions carry that value around).  Python integers are unbounded.
  A Python string is the list of its code points; \<open>ord\<close> of a one-character string is
  that code point.
\<close>

type_synonym pyval = "int option"

type_synonym pystr = "int list"

datatype exn = IndexError | TypeError | ValueError | OverflowError

abbreviation ord :: "char \<Rightarrow> int" where
  "ord c \<equiv> of_char c"

abbreviation lit :: "string \<Rightarrow> pystr" where
  "lit s \<equiv> map of_char s"

text \<open>
  The builtin \<open>chr\<close>: a one-character string for a code point below \<open>0x110000\<close>,
  \<open>ValueError\<close> for another integer that fits a C \<open>int\<close>, \<open>OverflowError\<close> beyond
  that (CPython converts the argument to a C \<open>int\<close> first), \<open>TypeError\<close> for \<open>None\<close>.
\<close>

definition py_chr :: "pyval \<Rightarrow> exn + pystr" where
  "py_chr v =
     (case v of
        None \<Rightarrow> Inl TypeError
      | Some c \<Rightarrow>
          if 0 \<le> c \<and> c < 0x110000 then Inr [c]
          else if - (2 ^ 31) \<le> c \<and> c < 2 ^ 31 then Inl ValueError
          else Inl OverflowError)"

text \<open>Python list indexing \<open>xs[i]\<close>: a negative index counts from the end.\<close>

definition index :: "'a list \<Rightarrow> int \<Rightarrow> exn + 'a" where
  "index xs i =
     (let n = int (length xs) in
      if 0 \<le> i \<and> i < n then Inr (xs ! nat i)
      else if - n \<le> i \<and> i < 0 then Inr (xs ! nat (n + i))
      else Inl IndexError)"

section \<open>common.py\<close>

definition EOT :: int where
  "EOT = 4"

text \<open>\<open>is_chr\<close> catches \<open>ValueError\<close> only; any other exception of \<open>chr\<close> escapes.\<close>

definition is_chr :: "pyval \<Rightarrow> exn + bool" where
  "is_chr char =
     (case py_chr char of
        Inr _ \<Rightarrow> Inr True
      | Inl ValueError \<Rightarrow> Inr False
      | Inl e \<Rightarrow> Inl e)"

text \<open>The chained comparison \<open>32 <= char <= 126\<close> raises \<open>TypeError\<close> on \<open>None\<close>.\<close>

definition is_printable :: "pyval \<Rightarrow> bool \<Rightarrow> exn + bool" where
  "is_printable char long =
     (if long \<and> char = Some (ord CHR '' '') then Inr False
      else case char of
             None \<Rightarrow> Inl TypeError
           | Some c \<Rightarrow> Inr (32 \<le> c \<and> c \<le> 126))"

text \<open>
  \<open>to_printable\<close> in its short mode (\<open>long=False\<close>), the only mode the interpreter
  uses.  The branches keep the order of the source, where the test \<open>0 <= char <= 9\<close>
  comes before the tests for tab and EOT.
\<close>

definition to_printable :: "pyval \<Rightarrow> exn + pystr" where
  "to_printable char =
     (case is_printable char False of
        Inl e \<Rightarrow> Inl e
      | Inr True \<Rightarrow> py_chr char
      | Inr False \<Rightarrow>
          (case char of
             None \<Rightarrow> Inl TypeError
           | Some c \<Rightarrow>
               if 0 \<le> c \<and> c \<le> 9 then Inr [ord CHR ''0'' + c]
               else if c = 10 then Inr (lit ''n'')
               else if c = 13 then Inr (lit ''r'')
               else if c = 9 then Inr (lit ''t'')
               else if c = EOT then Inr (lit ''E'')
               else if c < 0 then Inr (lit ''-'')
               else Inr (lit ''?'')))"

section \<open>The interpreter state\<close>

definition COLUMNS :: nat where
  "COLUMNS = 80"

text \<open>
  The fields of \<open>ArghInterpreter\<close>; \<open>ip_x\<close> and \<open>ip_y\<close> are the instruction pointer
  \<open>self.x\<close>, \<open>self.y\<close>.  The stack has its top at the end of the list.  \<open>error\<close> is
  \<open>None\<close> or the message string.  \<open>console\<close> is not a field of the class: it records
  what batch mode prints to the standard output of the process.
\<close>

record state =
  code :: "pyval list list"
  ip_x :: int
  ip_y :: int
  dx :: int
  dy :: int
  stack :: "pyval list"
  stdout :: pystr
  stdin :: "int list"
  needs_input :: bool
  error :: "pystr option"
  console :: pystr

text \<open>
  A method that can raise returns \<open>Inl (e, s)\<close>, the exception and the state of the
  object at the raise, or \<open>Inr s\<close>, the state at its normal return.
\<close>

type_synonym result = "(exn \<times> state) + state"

text \<open>
  \<open>__init__\<close>: the inner loop builds one row of \<open>COLUMNS\<close> cells from a source line,
  the outer loop one row per line.
\<close>

definition init_row :: "pystr \<Rightarrow> pyval list" where
  "init_row line =
     map (\<lambda>x. if x < length line then Some (line ! x) else Some (ord CHR '' '')) [0..<COLUMNS]"

definition init :: "pystr list \<Rightarrow> state" where
  "init lines =
     \<lparr> code = map init_row lines,
       ip_x = 0, ip_y = 0, dx = 0, dy = 0, stack = [], stdout = [], stdin = [],
       needs_input = False, error = None, console = [] \<rparr>"

definition reset :: "state \<Rightarrow> state" where
  "reset s = s\<lparr> ip_x := 0, ip_y := 0, dx := 0, dy := 0, stack := [], stdout := [],
                stdin := [], needs_input := False, error := None \<rparr>"

definition instruction :: "state \<Rightarrow> exn + pyval" where
  "instruction s =
     (case index (code s) (ip_y s) of
        Inl e \<Rightarrow> Inl e
      | Inr row \<Rightarrow> index row (ip_x s))"

definition is_done :: "state \<Rightarrow> exn + bool" where
  "is_done s =
     (case instruction s of
        Inl e \<Rightarrow> Inl e
      | Inr c \<Rightarrow> Inr (c = Some (ord CHR ''q'')))"

text \<open>
  \<open>self.done or self.error or self.needs_input\<close>, read as a truth value: an error
  string counts when it is not empty.
\<close>

definition blocked :: "state \<Rightarrow> exn + bool" where
  "blocked s =
     (case is_done s of
        Inl e \<Rightarrow> Inl e
      | Inr d \<Rightarrow> Inr (d \<or> (error s \<noteq> None \<and> error s \<noteq> Some []) \<or> needs_input s))"

definition is_valid :: "state \<Rightarrow> int \<Rightarrow> int \<Rightarrow> bool" where
  "is_valid s x y =
     (0 \<le> y \<and> y < int (length (code s)) \<and> 0 \<le> x \<and> x < int (length (code s ! nat y)))"

definition get :: "state \<Rightarrow> int \<Rightarrow> int \<Rightarrow> pyval" where
  "get s x y = (if is_valid s x y then code s ! nat y ! nat x else None)"

definition get_above :: "state \<Rightarrow> pyval" where
  "get_above s = get s (ip_x s) (ip_y s - 1)"

definition get_below :: "state \<Rightarrow> pyval" where
  "get_below s = get s (ip_x s) (ip_y s + 1)"

definition put :: "pyval \<Rightarrow> int \<Rightarrow> int \<Rightarrow> state \<Rightarrow> state" where
  "put symbol x y s =
     (if is_valid s x y
      then s\<lparr> code := (code s)[nat y := (code s ! nat y)[nat x := symbol]] \<rparr>
      else s)"

definition put_above :: "pyval \<Rightarrow> state \<Rightarrow> state" where
  "put_above symbol s = put symbol (ip_x s) (ip_y s - 1) s"

definition put_below :: "pyval \<Rightarrow> state \<Rightarrow> state" where
  "put_below symbol s = put symbol (ip_x s) (ip_y s + 1) s"

text \<open>\<open>_move\<close> returns its boolean together with the updated state.\<close>

definition move :: "state \<Rightarrow> bool \<times> state" where
  "move s =
     (if dx s = 0 \<and> dy s = 0
      then (False, s\<lparr> error := Some (lit ''can'' @ [39] @ lit ''t move; no direction specified'') \<rparr>)
      else if is_valid s (ip_x s + dx s) (ip_y s + dy s)
      then (True, s\<lparr> ip_x := ip_x s + dx s, ip_y := ip_y s + dy s \<rparr>)
      else (False, s\<lparr> error := Some (lit ''moved out of bounds'') \<rparr>))"

section \<open>Jumping\<close>

text \<open>
  The \<open>while\<close> loop of \<open>_jump\<close>: as long as the cell under the instruction pointer
  differs from the top of the stack, move once more; a failed move ends the jump with
  its own message.
\<close>

text \<open>
  The distance left to the edge of the grid in the direction of travel; it bounds the
  number of moves that can still succeed.
\<close>

definition jump_measure :: "state \<Rightarrow> nat" where
  "jump_measure s =
     (if 0 < dx s then nat (int (sum_list (map length (code s))) - ip_x s)
      else if dx s < 0 then nat (ip_x s + 1)
      else if 0 < dy s then nat (int (length (code s)) - ip_y s)
      else nat (ip_y s + 1))"

function jump_scan :: "state \<Rightarrow> result" where
  "jump_scan s =
     (case instruction s of
        Inl e \<Rightarrow> Inl (e, s)
      | Inr c \<Rightarrow>
          (case index (stack s) (- 1) of
             Inl e \<Rightarrow> Inl (e, s)
           | Inr tos \<Rightarrow>
               if c \<noteq> tos
               then (if fst (move s) then jump_scan (snd (move s))
                     else Inr ((snd (move s))\<lparr> error := Some (lit ''jumped out of bounds'') \<rparr>))
               else Inr s))"
  by pat_completeness auto
termination
proof (relation "measure jump_measure")
  show "wf (measure jump_measure)" by simp
next
  fix s :: state and c tos
  assume ok: "fst (move s)"
  have nz: "dx s \<noteq> 0 \<or> dy s \<noteq> 0"
    using ok by (auto simp: move_def split: if_splits)
  have v: "is_valid s (ip_x s + dx s) (ip_y s + dy s)"
    using ok by (auto simp: move_def split: if_splits)
  have s': "snd (move s) = s\<lparr> ip_x := ip_x s + dx s, ip_y := ip_y s + dy s \<rparr>"
    using nz v by (auto simp: move_def)
  have "nat (ip_y s + dy s) < length (code s)"
    using v by (auto simp: is_valid_def)
  then have "length (code s ! nat (ip_y s + dy s)) \<le> sum_list (map length (code s))"
    by (intro member_le_sum_list) auto
  then have w: "ip_x s + dx s < int (sum_list (map length (code s)))"
    using v by (auto simp: is_valid_def)
  have "jump_measure (snd (move s)) < jump_measure s"
    using nz v w unfolding s' by (auto simp: jump_measure_def is_valid_def)
  then show "(snd (move s), s) \<in> measure jump_measure" by simp
qed

declare jump_scan.simps [simp del]

definition jump :: "state \<Rightarrow> result" where
  "jump s =
     (if stack s = []
      then Inr (s\<lparr> error := Some (lit ''tried to pop from an empty stack'') \<rparr>)
      else if \<not> fst (move s)
      then Inr ((snd (move s))\<lparr> error := Some (lit ''jumped out of bounds'') \<rparr>)
      else jump_scan (snd (move s)))"

section \<open>Output and input\<close>

text \<open>
  \<open>_print\<close>: \<open>is_chr\<close> is evaluated first and lets a \<open>TypeError\<close> or an
  \<open>OverflowError\<close> of \<open>chr\<close> escape.  The console is taken to accept every character.
\<close>

definition print :: "pyval \<Rightarrow> bool \<Rightarrow> state \<Rightarrow> result" where
  "print char batch s =
     (case is_chr char of
        Inl e \<Rightarrow> Inl (e, s)
      | Inr True \<Rightarrow>
          (case py_chr char of
             Inl e \<Rightarrow> Inl (e, s)
           | Inr c \<Rightarrow>
               Inr (s\<lparr> stdout := stdout s @ c,
                       console := (if batch then console s @ c else console s) \<rparr>))
      | Inr False \<Rightarrow>
          (case to_printable char of
             Inl e \<Rightarrow> Inl (e, s)
           | Inr t \<Rightarrow>
               Inr (s\<lparr> error := Some (lit ''tried to print unprintable character: '' @ t) \<rparr>)))"

definition input_char :: "int \<Rightarrow> state \<Rightarrow> state" where
  "input_char char s = s\<lparr> stdin := stdin s @ [char], needs_input := False \<rparr>"

definition input_string :: "pystr \<Rightarrow> state \<Rightarrow> state" where
  "input_string string s = fold input_char string s"

section \<open>Stack operations\<close>

definition delete :: "state \<Rightarrow> state" where
  "delete s =
     (if stack s \<noteq> [] then s\<lparr> stack := butlast (stack s) \<rparr>
      else s\<lparr> error := Some (lit ''tried to pop from an empty stack'') \<rparr>)"

definition duplicate :: "state \<Rightarrow> state" where
  "duplicate s =
     (if stack s \<noteq> [] then s\<lparr> stack := stack s @ [last (stack s)] \<rparr>
      else s\<lparr> error := Some (lit ''tried to pop from an empty stack'') \<rparr>)"

text \<open>Python's \<open>+\<close> and \<open>-\<close> raise \<open>TypeError\<close> when an operand is \<open>None\<close>.\<close>

definition add :: "pyval \<Rightarrow> state \<Rightarrow> result" where
  "add addend s =
     (if stack s \<noteq> []
      then (case (last (stack s), addend) of
              (Some a, Some b) \<Rightarrow> Inr (s\<lparr> stack := butlast (stack s) @ [Some (a + b)] \<rparr>)
            | _ \<Rightarrow> Inl (TypeError, s))
      else Inr (s\<lparr> error := Some (lit ''tried to pop from an empty stack'') \<rparr>))"

definition subtract :: "pyval \<Rightarrow> state \<Rightarrow> result" where
  "subtract subtrahend s =
     (if stack s \<noteq> []
      then (case (last (stack s), subtrahend) of
              (Some a, Some b) \<Rightarrow> Inr (s\<lparr> stack := butlast (stack s) @ [Some (a - b)] \<rparr>)
            | _ \<Rightarrow> Inl (TypeError, s))
      else Inr (s\<lparr> error := Some (lit ''tried to pop from an empty stack'') \<rparr>))"

text \<open>\<open>_rotate\<close>: swap the components, then negate one of them.\<close>

definition rotate :: "bool \<Rightarrow> state \<Rightarrow> state" where
  "rotate clockwise s =
     (let s1 = s\<lparr> dx := dy s, dy := dx s \<rparr>
      in if clockwise then s1\<lparr> dx := - dx s1 \<rparr> else s1\<lparr> dy := - dy s1 \<rparr>)"

section \<open>One step of execution\<close>

text \<open>
  The \<open>if\<close>/\<open>elif\<close> chain of \<open>step\<close>, on the instruction as a one-character
  string.  \<open>X\<close> and \<open>x\<close> compare the top of the stack with zero, which raises
  \<open>TypeError\<close> when it is \<open>None\<close>.
\<close>

definition dispatch :: "pystr \<Rightarrow> bool \<Rightarrow> state \<Rightarrow> result" where
  "dispatch instr batch s =
     (if instr = lit ''h''
       then Inr (s\<lparr> dx := - 1, dy := 0 \<rparr>)
      else if instr = lit ''l''
       then Inr (s\<lparr> dx := 1, dy := 0 \<rparr>)
      else if instr = lit ''k''
       then Inr (s\<lparr> dx := 0, dy := - 1 \<rparr>)
      else if instr = lit ''j''
       then Inr (s\<lparr> dx := 0, dy := 1 \<rparr>)
      else if instr = lit ''H''
       then jump (s\<lparr> dx := - 1, dy := 0 \<rparr>)
      else if instr = lit ''L''
       then jump (s\<lparr> dx := 1, dy := 0 \<rparr>)
      else if instr = lit ''K''
       then jump (s\<lparr> dx := 0, dy := - 1 \<rparr>)
      else if instr = lit ''J''
       then jump (s\<lparr> dx := 0, dy := 1 \<rparr>)
      else if instr = lit ''P''
       then print (get_above s) batch s
      else if instr = lit ''p''
       then print (get_below s) batch s
      else if instr = lit ''G''
       then (case stdin s of
              c # rest \<Rightarrow> Inr (put_above (Some c) (s\<lparr> stdin := rest \<rparr>))
            | [] \<Rightarrow> Inr (s\<lparr> needs_input := True \<rparr>))
      else if instr = lit ''g''
       then (case stdin s of
              c # rest \<Rightarrow> Inr (put_below (Some c) (s\<lparr> stdin := rest \<rparr>))
            | [] \<Rightarrow> Inr (s\<lparr> needs_input := True \<rparr>))
      else if instr = lit ''D''
       then Inr (delete s)
      else if instr = lit ''d''
       then Inr (duplicate s)
      else if instr = lit ''E''
       then Inr (put_above (Some EOT) s)
      else if instr = lit ''e''
       then Inr (put_below (Some EOT) s)
      else if instr = lit ''F''
       then (if stack s \<noteq> []
            then Inr (put_above (last (stack s)) (s\<lparr> stack := butlast (stack s) \<rparr>))
            else Inr (s\<lparr> error := Some (lit ''tried to pop from an empty stack'') \<rparr>))
      else if instr = lit ''f''
       then (if stack s \<noteq> []
            then Inr (put_below (last (stack s)) (s\<lparr> stack := butlast (stack s) \<rparr>))
            else Inr (s\<lparr> error := Some (lit ''tried to pop from an empty stack'') \<rparr>))
      else if instr = lit ''A''
       then add (get_above s) s
      else if instr = lit ''a''
       then add (get_below s) s
      else if instr = lit ''R''
       then subtract (get_above s) s
      else if instr = lit ''r''
       then subtract (get_below s) s
      else if instr = lit ''S''
       then Inr (s\<lparr> stack := stack s @ [get_above s] \<rparr>)
      else if instr = lit ''s''
       then Inr (s\<lparr> stack := stack s @ [get_below s] \<rparr>)
      else if instr = lit ''X''
       then (if stack s \<noteq> []
            then (case last (stack s) of
                    None \<Rightarrow> Inl (TypeError, s)
                  | Some v \<Rightarrow> if v < 0 then Inr (rotate False s) else Inr s)
            else Inr (s\<lparr> error := Some (lit ''tried to pop from an empty stack'') \<rparr>))
      else if instr = lit ''x''
       then (if stack s \<noteq> []
            then (case last (stack s) of
                    None \<Rightarrow> Inl (TypeError, s)
                  | Some v \<Rightarrow> if 0 < v then Inr (rotate True s) else Inr s)
            else Inr (s\<lparr> error := Some (lit ''tried to pop from an empty stack'') \<rparr>))
      else if instr = lit ''#'' \<and> ip_x s = 0 \<and> ip_y s = 0 \<and> get s 1 0 = Some (ord CHR ''!'')
       then Inr (s\<lparr> dx := 0, dy := 1 \<rparr>)
      else if instr \<noteq> lit ''q''
       then Inr (s\<lparr> error := Some (lit ''invalid instruction: '' @ instr) \<rparr>)
      else Inr s)"

text \<open>
  \<open>step\<close>: return at once when blocked; read the instruction, set the error when it is
  not printable (the method goes on after that), convert it with \<open>chr\<close>, dispatch,
  and move when the machine is not blocked afterwards.
\<close>

definition step :: "bool \<Rightarrow> state \<Rightarrow> result" where
  "step batch s =
     (case blocked s of
        Inl e \<Rightarrow> Inl (e, s)
      | Inr True \<Rightarrow> Inr s
      | Inr False \<Rightarrow>
     (case instruction s of
        Inl e \<Rightarrow> Inl (e, s)
      | Inr instr \<Rightarrow>
     (case is_printable instr False of
        Inl e \<Rightarrow> Inl (e, s)
      | Inr printable \<Rightarrow>
     (case (if printable then Inr s
            else case to_printable instr of
                   Inl e \<Rightarrow> Inl (e, s)
                 | Inr t \<Rightarrow> Inr (s\<lparr> error := Some (lit ''invalid instruction: '' @ t) \<rparr>)) of
        Inl r \<Rightarrow> Inl r
      | Inr s1 \<Rightarrow>
     (case py_chr instr of
        Inl e \<Rightarrow> Inl (e, s1)
      | Inr ch \<Rightarrow>
     (case dispatch ch batch s1 of
        Inl r \<Rightarrow> Inl r
      | Inr s2 \<Rightarrow>
     (case blocked s2 of
        Inl e \<Rightarrow> Inl (e, s2)
      | Inr True \<Rightarrow> Inr s2
      | Inr False \<Rightarrow> Inr (snd (move s2)))))))))"

section \<open>Editing and export\<close>

definition new_line :: "state \<Rightarrow> state" where
  "new_line s = s\<lparr> code := code s @ [replicate COLUMNS (Some (ord CHR '' ''))] \<rparr>"

text \<open>
  \<open>code_to_string\<close>: one string per row, each cell through \<open>chr\<close>; the first cell
  that \<open>chr\<close> rejects raises.
\<close>

fun row_to_string :: "pyval list \<Rightarrow> exn + pystr" where
  "row_to_string [] = Inr []"
| "row_to_string (c # cs) =
     (case py_chr c of
        Inl e \<Rightarrow> Inl e
      | Inr ch \<Rightarrow>
          (case row_to_string cs of
             Inl e \<Rightarrow> Inl e
           | Inr r \<Rightarrow> Inr (ch @ r)))"

fun rows_to_strings :: "pyval list list \<Rightarrow> exn + pystr list" where
  "rows_to_strings [] = Inr []"
| "rows_to_strings (row # rows) =
     (case row_to_string row of
        Inl e \<Rightarrow> Inl e
      | Inr r \<Rightarrow>
          (case rows_to_strings rows of
             Inl e \<Rightarrow> Inl e
           | Inr rs \<Rightarrow> Inr (r # rs)))"

definition code_to_string :: "state \<Rightarrow> exn + pystr list" where
  "code_to_string s = rows_to_strings (code s)"

section \<open>Driving the machine\<close>

text \<open>
  What a driver does with the public operations: call \<open>step\<close> (in batch mode or not),
  \<open>input_char\<close> or \<open>input_string\<close>.  A driver that catches an exception of
  \<open>step\<close> goes on with the object as the raise left it.
\<close>

datatype call = Step bool | Input_char int | Input_string pystr

definition state_of :: "result \<Rightarrow> state" where
  "state_of r = (case r of Inl (e, s) \<Rightarrow> s | Inr s \<Rightarrow> s)"

fun apply_call :: "call \<Rightarrow> state \<Rightarrow> state" where
  "apply_call (Step batch) s = state_of (step batch s)"
| "apply_call (Input_char c) s = input_char c s"
| "apply_call (Input_string str) s = input_string str s"

definition drive :: "call list \<Rightarrow> state \<Rightarrow> state" where
  "drive calls s = fold apply_call calls s"

text \<open>A Python string holds code points only.\<close>

definition is_str :: "pystr \<Rightarrow> bool" where
  "is_str str = list_all (\<lambda>c. 0 \<le> c \<and> c < 0x110000) str"

text \<open>
  The invariant of the grid and the pointer: the grid has \<open>n\<close> rows, every row has
  \<open>COLUMNS\<close> cells, and the pointer is on a cell of the grid, or at (0,0) when the grid
  has no rows.
\<close>

definition grid_inv :: "nat \<Rightarrow> state \<Rightarrow> bool" where
  "grid_inv n s =
     (length (code s) = n
      \<and> (\<forall>row \<in> set (code s). length row = COLUMNS)
      \<and> (if code s = [] then ip_x s = 0 \<and> ip_y s = 0 else is_valid s (ip_x s) (ip_y s)))"

section \<open>The empty program\<close>

text \<open>
  C10.  Built from an empty sequence of source lines, the machine has a grid with no rows
  and its instruction pointer at (0,0).  Reading the cell under the pointer raises
  \<open>IndexError\<close>, and so do \<open>done\<close>, \<open>blocked\<close> and \<open>step\<close>; \<open>step\<close> leaves the
  object as it was, with no diagnostic set.
\<close>

theorem empty_program_raises:
  "code (init []) = [] \<and> ip_x (init []) = 0 \<and> ip_y (init []) = 0
   \<and> instruction (init []) = Inl IndexError
   \<and> is_done (init []) = Inl IndexError
   \<and> blocked (init []) = Inl IndexError
   \<and> step batch (init []) = Inl (IndexError, init [])
   \<and> error (init []) = None"
  by code_simp

section \<open>The input scenario\<close>

text \<open>
  C2.  On the machine built from the single line \<open>G\<close> with no
  queued input, the first \<open>step\<close> sets \<open>needs_input\<close> and leaves the pointer at (0,0);
  \<open>input_char\<close> clears \<open>needs_input\<close> and queues the code; the next \<open>step\<close> takes the
  code from the queue, writes nothing (the cell above is outside the grid), and then,
  no direction having been set, reports that it cannot move and leaves the pointer at
  (0,0).
\<close>

theorem input_scenario:
  "step batch (init [lit ''G'']) = Inr ((init [lit ''G''])\<lparr> needs_input := True \<rparr>)
   \<and> ip_x ((init [lit ''G''])\<lparr> needs_input := True \<rparr>) = 0
   \<and> ip_y ((init [lit ''G''])\<lparr> needs_input := True \<rparr>) = 0
   \<and> input_char c ((init [lit ''G''])\<lparr> needs_input := True \<rparr>)
       = (init [lit ''G''])\<lparr> stdin := [c] \<rparr>
   \<and> needs_input ((init [lit ''G''])\<lparr> stdin := [c] \<rparr>) = False
   \<and> step batch ((init [lit ''G''])\<lparr> stdin := [c] \<rparr>)
       = Inr ((init [lit ''G''])
               \<lparr> error := Some (lit ''can'' @ [39] @ lit ''t move; no direction specified'') \<rparr>)
   \<and> get_above ((init [lit ''G''])\<lparr> stdin := [c] \<rparr>) = None"
  by code_simp

text \<open>
  The last step of the scenario does not advance the pointer: with the code of \<open>A\<close>
  supplied after the first \<open>step\<close>, the second \<open>step\<close> returns with the pointer
  where it was, at (0,0).
\<close>

theorem input_scenario_no_advance:
  "step False (init [lit ''G'']) = Inr ((init [lit ''G''])\<lparr> needs_input := True \<rparr>)
   \<and> step False (input_char 65 ((init [lit ''G''])\<lparr> needs_input := True \<rparr>))
       = Inr ((init [lit ''G''])
               \<lparr> error := Some (lit ''can'' @ [39] @ lit ''t move; no direction specified'') \<rparr>)
   \<and> ip_x (input_char 65 ((init [lit ''G''])\<lparr> needs_input := True \<rparr>)) = 0
   \<and> ip_y (input_char 65 ((init [lit ''G''])\<lparr> needs_input := True \<rparr>)) = 0
   \<and> ip_x ((init [lit ''G''])
             \<lparr> error := Some (lit ''can'' @ [39] @ lit ''t move; no direction specified'') \<rparr>) = 0
   \<and> ip_y ((init [lit ''G''])
             \<lparr> error := Some (lit ''can'' @ [39] @ lit ''t move; no direction specified'') \<rparr>) = 0"
  by code_simp

section \<open>Values that are not code points\<close>

text \<open>
  C8.  On the machine built from the single line \<open>S\<close>, the cell above the pointer is
  outside the grid, \<open>get\<close> returns \<open>None\<close> for it, and \<open>step\<close> pushes that \<open>None\<close>:
  the stack then holds a value that is not an integer.
\<close>

theorem push_above_pushes_None:
  "get_above (init [lit ''S'']) = None
   \<and> step batch (init [lit ''S''])
       = Inr ((init [lit ''S''])
               \<lparr> stack := [None],
                 error := Some (lit ''can'' @ [39] @ lit ''t move; no direction specified'') \<rparr>)"
  by code_simp

text \<open>
  C3.  The program \<open>lsrfj\<close> over \<open>  ! h\<close> pushes 32, subtracts 33, pops the result
  \<open>-1\<close> into the cell at (3,1) and walks onto it.  After these six steps the machine is
  not blocked and the cell under the pointer holds \<open>-1\<close>.  The next \<open>step\<close> sets the
  invalid-instruction error and then raises \<open>ValueError\<close> from \<open>chr\<close>.
\<close>

theorem step_raises_on_negative_cell:
  "drive (replicate 6 (Step False)) (init [lit ''lsrfj'', lit ''  ! h''])
     = put (Some (- 1)) 3 1
         ((init [lit ''lsrfj'', lit ''  ! h''])\<lparr> ip_x := 3, ip_y := 1, dx := - 1, dy := 0 \<rparr>)
   \<and> blocked (put (Some (- 1)) 3 1
         ((init [lit ''lsrfj'', lit ''  ! h''])\<lparr> ip_x := 3, ip_y := 1, dx := - 1, dy := 0 \<rparr>))
       = Inr False
   \<and> instruction (put (Some (- 1)) 3 1
         ((init [lit ''lsrfj'', lit ''  ! h''])\<lparr> ip_x := 3, ip_y := 1, dx := - 1, dy := 0 \<rparr>))
       = Inr (Some (- 1))
   \<and> step False (put (Some (- 1)) 3 1
         ((init [lit ''lsrfj'', lit ''  ! h''])\<lparr> ip_x := 3, ip_y := 1, dx := - 1, dy := 0 \<rparr>))
       = Inl (ValueError,
              (put (Some (- 1)) 3 1
                ((init [lit ''lsrfj'', lit ''  ! h''])\<lparr> ip_x := 3, ip_y := 1, dx := - 1, dy := 0 \<rparr>))
              \<lparr> error := Some (lit ''invalid instruction: -'') \<rparr>)"
  by code_simp

section \<open>Blocked machines, rotation and stack underflow\<close>

lemma blocked_cong:
  "code t = code s \<Longrightarrow> ip_x t = ip_x s \<Longrightarrow> ip_y t = ip_y s \<Longrightarrow> error t = error s
   \<Longrightarrow> needs_input t = needs_input s \<Longrightarrow> blocked t = blocked s"
proof -
  assume a: "code t = code s" "ip_x t = ip_x s" "ip_y t = ip_y s" "error t = error s"
    "needs_input t = needs_input s"
  have "instruction t = instruction s"
    unfolding instruction_def a ..
  then have "is_done t = is_done s"
    unfolding is_done_def by simp
  then show ?thesis
    unfolding blocked_def a by simp
qed

lemma blocked_error:
  "blocked s = Inr b \<Longrightarrow> m \<noteq> [] \<Longrightarrow> blocked (s\<lparr> error := Some m \<rparr>) = Inr True"
  by (auto simp: blocked_def is_done_def instruction_def split: sum.splits)

lemma move_dir: "dx (snd (move s)) = dx s" "dy (snd (move s)) = dy s"
  by (simp_all add: move_def)

lemma step_printable:
  "blocked s = Inr False \<Longrightarrow> instruction s = Inr (Some c) \<Longrightarrow> 32 \<le> c \<Longrightarrow> c \<le> 126 \<Longrightarrow>
   step batch s =
     (case dispatch [c] batch s of
        Inl r \<Rightarrow> Inl r
      | Inr s2 \<Rightarrow>
          (case blocked s2 of
             Inl e \<Rightarrow> Inl (e, s2)
           | Inr True \<Rightarrow> Inr s2
           | Inr False \<Rightarrow> Inr (snd (move s2))))"
  by (simp add: step_def is_printable_def py_chr_def)

text \<open>
  C4.  When \<open>blocked\<close> holds (the cell under the pointer is \<open>q\<close>, or an error is set,
  or \<open>needs_input\<close> is true), \<open>step\<close> returns at once with the whole state as it
  was: grid, pointer, direction, stack, input queue, output, flags, and nothing printed.
\<close>

theorem blocked_step_noop: "blocked s = Inr True \<Longrightarrow> step batch s = Inr s"
  by (simp add: step_def)

text \<open>
  C1.  From a state that is not blocked: \<open>X\<close> with a negative integer on top of the
  stack turns the direction \<open>(dx, dy)\<close> into \<open>(dy, -dx)\<close>, \<open>x\<close> with a positive one
  turns it into \<open>(-dy, dx)\<close>; with any other integer on top the direction stays; with
  an empty stack the only change is the stack-underflow error.
\<close>

theorem conditional_rotate:
  "blocked s = Inr False \<Longrightarrow>
   (instruction s = Inr (Some (ord CHR ''X'')) \<and> stack s \<noteq> [] \<and> last (stack s) = Some v \<longrightarrow>
      (\<exists>s'. step batch s = Inr s'
          \<and> (if v < 0 then dx s' = dy s \<and> dy s' = - dx s else dx s' = dx s \<and> dy s' = dy s)))
   \<and> (instruction s = Inr (Some (ord CHR ''x'')) \<and> stack s \<noteq> [] \<and> last (stack s) = Some v \<longrightarrow>
      (\<exists>s'. step batch s = Inr s'
          \<and> (if 0 < v then dx s' = - dy s \<and> dy s' = dx s else dx s' = dx s \<and> dy s' = dy s)))
   \<and> ((instruction s = Inr (Some (ord CHR ''X'')) \<or> instruction s = Inr (Some (ord CHR ''x'')))
        \<and> stack s = [] \<longrightarrow>
      step batch s = Inr (s\<lparr> error := Some (lit ''tried to pop from an empty stack'') \<rparr>))"
proof (intro conjI impI)
  assume nb: "blocked s = Inr False"
  {
    assume "instruction s = Inr (Some (ord CHR ''X'')) \<and> stack s \<noteq> [] \<and> last (stack s) = Some v"
    then have i: "instruction s = Inr (Some 88)" and st: "stack s \<noteq> []" "last (stack s) = Some v"
      by simp_all
    have b: "blocked (rotate False s) = Inr False"
      using nb blocked_cong [of "rotate False s" s] by (simp add: rotate_def Let_def)
    show "\<exists>s'. step batch s = Inr s'
          \<and> (if v < 0 then dx s' = dy s \<and> dy s' = - dx s else dx s' = dx s \<and> dy s' = dy s)"
      using nb st b by (simp add: step_printable [OF nb i] dispatch_def move_dir) (simp add: rotate_def Let_def)
  }
  {
    assume "instruction s = Inr (Some (ord CHR ''x'')) \<and> stack s \<noteq> [] \<and> last (stack s) = Some v"
    then have i: "instruction s = Inr (Some 120)" and st: "stack s \<noteq> []" "last (stack s) = Some v"
      by simp_all
    have b: "blocked (rotate True s) = Inr False"
      using nb blocked_cong [of "rotate True s" s] by (simp add: rotate_def Let_def)
    show "\<exists>s'. step batch s = Inr s'
          \<and> (if 0 < v then dx s' = - dy s \<and> dy s' = dx s else dx s' = dx s \<and> dy s' = dy s)"
      using nb st b by (simp add: step_printable [OF nb i] dispatch_def move_dir) (simp add: rotate_def Let_def)
  }
  {
    assume a: "(instruction s = Inr (Some (ord CHR ''X'')) \<or> instruction s = Inr (Some (ord CHR ''x'')))
        \<and> stack s = []"
    then consider "instruction s = Inr (Some 88)" | "instruction s = Inr (Some 120)" by auto
    then show "step batch s = Inr (s\<lparr> error := Some (lit ''tried to pop from an empty stack'') \<rparr>)"
    proof cases
      case 1
      show ?thesis using a blocked_error [OF nb]
        by (simp add: step_printable [OF nb 1] dispatch_def)
    next
      case 2
      show ?thesis using a blocked_error [OF nb]
        by (simp add: step_printable [OF nb 2] dispatch_def)
    qed
  }
qed

theorem blocked_step_noop_witness:
  "blocked (init [lit ''q'']) = Inr True \<and> step False (init [lit ''q'']) = Inr (init [lit ''q''])"
proof -
  have h: "blocked (init [lit ''q'']) = Inr True" by code_simp
  show ?thesis using h blocked_step_noop [OF h, of False] by simp
qed

theorem conditional_rotate_witness:
  "blocked ((init [lit ''X''])\<lparr> dx := 1, dy := 0, stack := [Some (- 1)] \<rparr>) = Inr False
   \<and> (\<exists>s'. step False ((init [lit ''X''])\<lparr> dx := 1, dy := 0, stack := [Some (- 1)] \<rparr>) = Inr s'
          \<and> dx s' = 0 \<and> dy s' = - 1)
   \<and> blocked ((init [lit ''x''])\<lparr> dx := 1, dy := 0, stack := [Some 1] \<rparr>) = Inr False
   \<and> (\<exists>s'. step False ((init [lit ''x''])\<lparr> dx := 1, dy := 0, stack := [Some 1] \<rparr>) = Inr s'
          \<and> dx s' = 0 \<and> dy s' = 1)
   \<and> blocked (init [lit ''X'']) = Inr False
   \<and> step False (init [lit ''X''])
       = Inr ((init [lit ''X''])\<lparr> error := Some (lit ''tried to pop from an empty stack'') \<rparr>)"
proof -
  let ?a = "(init [lit ''X''])\<lparr> dx := 1, dy := 0, stack := [Some (- 1)] \<rparr>"
  let ?b = "(init [lit ''x''])\<lparr> dx := 1, dy := 0, stack := [Some 1] \<rparr>"
  let ?c = "init [lit ''X'']"
  have ba: "blocked ?a = Inr False" by code_simp
  have ia: "instruction ?a = Inr (Some (ord CHR ''X''))" by code_simp
  have bb: "blocked ?b = Inr False" by code_simp
  have ib: "instruction ?b = Inr (Some (ord CHR ''x''))" by code_simp
  have bc: "blocked ?c = Inr False" by code_simp
  have ic: "instruction ?c = Inr (Some (ord CHR ''X''))" by code_simp
  have sc: "stack ?c = []" by code_simp
  have 1: "\<exists>s'. step False ?a = Inr s' \<and> dx s' = 0 \<and> dy s' = - 1"
    using conditional_rotate [OF ba, of "- 1" False] ia by simp
  have 2: "\<exists>s'. step False ?b = Inr s' \<and> dx s' = 0 \<and> dy s' = 1"
    using conditional_rotate [OF bb, of 1 False] ib by simp
  have 3: "step False ?c = Inr (?c\<lparr> error := Some (lit ''tried to pop from an empty stack'') \<rparr>)"
    using conditional_rotate [OF bc, of 0 False] ic sc by simp
  show ?thesis using ba bb bc 1 2 3 by simp
qed

lemma step_underflow:
  assumes "blocked s = Inr False" "instruction s = Inr (Some c)" "32 \<le> c" "c \<le> 126"
    and "dispatch [c] batch s = Inr (t\<lparr> error := Some (lit ''tried to pop from an empty stack'') \<rparr>)"
    and "blocked t = Inr False"
  shows "step batch s = Inr (t\<lparr> error := Some (lit ''tried to pop from an empty stack'') \<rparr>)"
  using assms(5) blocked_error [OF assms(6), of "lit ''tried to pop from an empty stack''"]
  by (simp add: step_printable [OF assms(1-4)])

lemma blocked_dir: "blocked (s\<lparr> dx := a, dy := b \<rparr>) = blocked s"
  by (rule blocked_cong) simp_all

text \<open>
  C7.  The stack is a list, so its length is never negative.  From a state that is not
  blocked and has an empty stack, each of \<open>D F f d A a R r X x H L K J\<close> returns
  normally with the stack-underflow error set and the stack still empty; grid, pointer,
  input queue and output are untouched.
\<close>

theorem empty_stack_underflow:
  assumes nb: "blocked s = Inr False" and e: "stack s = []"
    and i: "instruction s = Inr (Some (ord c))" and c: "c \<in> set ''DFfdAaRrXxHLKJ''"
  shows "\<exists>s'. step batch s = Inr s'
           \<and> error s' = Some (lit ''tried to pop from an empty stack'')
           \<and> stack s' = [] \<and> code s' = code s \<and> ip_x s' = ip_x s \<and> ip_y s' = ip_y s
           \<and> stdin s' = stdin s \<and> stdout s' = stdout s"
proof -
  have "\<exists>t. step batch s = Inr (t\<lparr> error := Some (lit ''tried to pop from an empty stack'') \<rparr>)
          \<and> stack t = [] \<and> code t = code s \<and> ip_x t = ip_x s \<and> ip_y t = ip_y s
           \<and> stdin t = stdin s \<and> stdout t = stdout s"
  proof -
    have nonjump: "\<exists>t. step batch s = Inr (t\<lparr> error := Some (lit ''tried to pop from an empty stack'') \<rparr>)
          \<and> stack t = [] \<and> code t = code s \<and> ip_x t = ip_x s \<and> ip_y t = ip_y s
           \<and> stdin t = stdin s \<and> stdout t = stdout s"
      if "instruction s = Inr (Some k)" "32 \<le> k" "k \<le> 126"
        "dispatch [k] batch s = Inr (s\<lparr> error := Some (lit ''tried to pop from an empty stack'') \<rparr>)"
      for k
      using step_underflow [OF nb that nb] e by (intro exI [of _ s]) simp
    have isjump: "\<exists>t. step batch s = Inr (t\<lparr> error := Some (lit ''tried to pop from an empty stack'') \<rparr>)
          \<and> stack t = [] \<and> code t = code s \<and> ip_x t = ip_x s \<and> ip_y t = ip_y s
           \<and> stdin t = stdin s \<and> stdout t = stdout s"
      if "instruction s = Inr (Some k)" "32 \<le> k" "k \<le> 126"
        "dispatch [k] batch s = jump (s\<lparr> dx := a, dy := b \<rparr>)"
      for k a b
    proof -
      have "dispatch [k] batch s
            = Inr (s\<lparr> dx := a, dy := b, error := Some (lit ''tried to pop from an empty stack'') \<rparr>)"
        using that(4) e by (simp add: jump_def)
      from step_underflow [OF nb that(1-3) this] nb e show ?thesis
        by (intro exI [of _ "s\<lparr> dx := a, dy := b \<rparr>"]) (simp add: blocked_dir)
    qed
    from c have "c = CHR ''D'' \<or> c = CHR ''F'' \<or> c = CHR ''f'' \<or> c = CHR ''d'' \<or> c = CHR ''A'' \<or> c = CHR ''a'' \<or> c = CHR ''R'' \<or> c = CHR ''r'' \<or> c = CHR ''X'' \<or> c = CHR ''x'' \<or> c = CHR ''H'' \<or> c = CHR ''L'' \<or> c = CHR ''K'' \<or> c = CHR ''J''"
      by simp
    then show ?thesis
    proof (elim disjE)
      assume "c = CHR ''D''"
      with i e show ?thesis by (intro nonjump [where k = 68]) (simp_all add: dispatch_def delete_def)
    next
      assume "c = CHR ''F''"
      with i e show ?thesis by (intro nonjump [where k = 70]) (simp_all add: dispatch_def)
    next
      assume "c = CHR ''f''"
      with i e show ?thesis by (intro nonjump [where k = 102]) (simp_all add: dispatch_def)
    next
      assume "c = CHR ''d''"
      with i e show ?thesis by (intro nonjump [where k = 100]) (simp_all add: dispatch_def duplicate_def)
    next
      assume "c = CHR ''A''"
      with i e show ?thesis by (intro nonjump [where k = 65]) (simp_all add: dispatch_def add_def)
    next
      assume "c = CHR ''a''"
      with i e show ?thesis by (intro nonjump [where k = 97]) (simp_all add: dispatch_def add_def)
    next
      assume "c = CHR ''R''"
      with i e show ?thesis by (intro nonjump [where k = 82]) (simp_all add: dispatch_def subtract_def)
    next
      assume "c = CHR ''r''"
      with i e show ?thesis by (intro nonjump [where k = 114]) (simp_all add: dispatch_def subtract_def)
    next
      assume "c = CHR ''X''"
      with i e show ?thesis by (intro nonjump [where k = 88]) (simp_all add: dispatch_def)
    next
      assume "c = CHR ''x''"
      with i e show ?thesis by (intro nonjump [where k = 120]) (simp_all add: dispatch_def)
    next
      assume "c = CHR ''H''"
      with i e show ?thesis by (intro isjump [where k = 72 and a = "- 1" and b = 0]) (simp_all add: dispatch_def)
    next
      assume "c = CHR ''L''"
      with i e show ?thesis by (intro isjump [where k = 76 and a = 1 and b = 0]) (simp_all add: dispatch_def)
    next
      assume "c = CHR ''K''"
      with i e show ?thesis by (intro isjump [where k = 75 and a = 0 and b = "- 1"]) (simp_all add: dispatch_def)
    next
      assume "c = CHR ''J''"
      with i e show ?thesis by (intro isjump [where k = 74 and a = 0 and b = 1]) (simp_all add: dispatch_def)
    qed
  qed
  then show ?thesis by auto
qed

theorem empty_stack_underflow_witness:
  "blocked (init [lit ''D'']) = Inr False \<and> stack (init [lit ''D'']) = []
   \<and> instruction (init [lit ''D'']) = Inr (Some (ord CHR ''D''))
   \<and> CHR ''D'' \<in> set ''DFfdAaRrXxHLKJ''
   \<and> (\<exists>s'. step False (init [lit ''D'']) = Inr s'
          \<and> error s' = Some (lit ''tried to pop from an empty stack'') \<and> stack s' = [])"
proof -
  have b: "blocked (init [lit ''D'']) = Inr False" by code_simp
  have e: "stack (init [lit ''D'']) = []" by code_simp
  have i: "instruction (init [lit ''D'']) = Inr (Some (ord CHR ''D''))" by code_simp
  have c: "CHR ''D'' \<in> set ''DFfdAaRrXxHLKJ''" by simp
  from empty_stack_underflow [OF b e i c, of False] b e i c show ?thesis by blast
qed

section \<open>The jump scan\<close>

lemma instruction_valid:
  "is_valid s (ip_x s) (ip_y s) \<Longrightarrow> instruction s = Inr (code s ! nat (ip_y s) ! nat (ip_x s))"
  by (simp add: is_valid_def instruction_def index_def)

lemma index_last: "xs \<noteq> [] \<Longrightarrow> index xs (- 1) = Inr (last xs)"
  by (cases xs rule: rev_cases) (simp_all add: index_def)

lemma move_True:
  assumes ok: "fst (move s)"
  shows "snd (move s) = s\<lparr> ip_x := ip_x s + dx s, ip_y := ip_y s + dy s \<rparr>"
    and "is_valid s (ip_x s + dx s) (ip_y s + dy s)"
proof -
  have nz: "dx s \<noteq> 0 \<or> dy s \<noteq> 0"
    using ok by (auto simp: move_def split: if_splits)
  show v: "is_valid s (ip_x s + dx s) (ip_y s + dy s)"
    using ok by (auto simp: move_def split: if_splits)
  show "snd (move s) = s\<lparr> ip_x := ip_x s + dx s, ip_y := ip_y s + dy s \<rparr>"
    using nz v by (auto simp: move_def)
qed

lemma move_False:
  assumes "\<not> fst (move s)"
  shows "(snd (move s))\<lparr> error := e \<rparr> = s\<lparr> error := e \<rparr>"
proof (cases "dx s = 0 \<and> dy s = 0")
  case True
  then show ?thesis by (simp add: move_def)
next
  case False
  moreover from False assms have "\<not> is_valid s (ip_x s + dx s) (ip_y s + dy s)"
    by (auto simp: move_def)
  ultimately show ?thesis by (simp add: move_def)
qed

lemma is_valid_cong: "code t = code s \<Longrightarrow> is_valid t x y = is_valid s x y"
  by (simp add: is_valid_def)

lemma jump_scan_result:
  "is_valid s (ip_x s) (ip_y s) \<Longrightarrow> stack s \<noteq> [] \<Longrightarrow>
   \<exists>s'. jump_scan s = Inr s' \<and> stack s' = stack s \<and> code s' = code s
        \<and> dx s' = dx s \<and> dy s' = dy s
        \<and> (error s' = Some (lit ''jumped out of bounds'')
            \<or> (error s' = error s \<and> is_valid s' (ip_x s') (ip_y s')
                \<and> instruction s' = Inr (last (stack s))))"
proof (induction s rule: jump_scan.induct)
  case (1 s)
  note v = \<open>is_valid s (ip_x s) (ip_y s)\<close> and st = \<open>stack s \<noteq> []\<close>
  let ?c = "code s ! nat (ip_y s) ! nat (ip_x s)"
  have i: "instruction s = Inr ?c" using v by (rule instruction_valid)
  have t: "index (stack s) (- 1) = Inr (last (stack s))" using st by (rule index_last)
  show ?case
  proof (cases "?c = last (stack s)")
    case True
    then have "jump_scan s = Inr s"
      by (subst jump_scan.simps) (simp add: i t)
    with True v i show ?thesis by simp
  next
    case ne: False
    show ?thesis
    proof (cases "fst (move s)")
      case True
      let ?s1 = "snd (move s)"
      have s1: "?s1 = s\<lparr> ip_x := ip_x s + dx s, ip_y := ip_y s + dy s \<rparr>"
        and v1: "is_valid s (ip_x s + dx s) (ip_y s + dy s)"
        using move_True [OF True] by simp_all
      have v1': "is_valid ?s1 (ip_x ?s1) (ip_y ?s1)"
        using v1 by (simp add: s1 is_valid_def)
      have st1: "stack ?s1 \<noteq> []" using st by (simp add: s1)
      have eq: "jump_scan s = jump_scan ?s1"
        using ne True by (subst jump_scan.simps) (simp add: i t)
      from "1.IH" [OF i t _ True v1' st1] ne
      obtain s' where "jump_scan ?s1 = Inr s'" "stack s' = stack ?s1" "code s' = code ?s1"
        "dx s' = dx ?s1" "dy s' = dy ?s1"
        "error s' = Some (lit ''jumped out of bounds'')
            \<or> (error s' = error ?s1 \<and> is_valid s' (ip_x s') (ip_y s')
                \<and> instruction s' = Inr (last (stack ?s1)))"
        by auto
      then show ?thesis unfolding eq by (simp add: s1)
    next
      case False
      have "jump_scan s = Inr ((snd (move s))\<lparr> error := Some (lit ''jumped out of bounds'') \<rparr>)"
        using ne False by (subst jump_scan.simps) (simp add: i t)
      then show ?thesis by (simp add: move_False [OF False])
    qed
  qed
qed

lemma jump_result:
  "stack s \<noteq> [] \<Longrightarrow>
   \<exists>s'. jump s = Inr s' \<and> stack s' = stack s \<and> code s' = code s
        \<and> dx s' = dx s \<and> dy s' = dy s
        \<and> (error s' = Some (lit ''jumped out of bounds'')
            \<or> (error s' = error s \<and> is_valid s' (ip_x s') (ip_y s')
                \<and> instruction s' = Inr (last (stack s))))"
proof (cases "fst (move s)")
  case True
  let ?s1 = "snd (move s)"
  assume st: "stack s \<noteq> []"
  have s1: "?s1 = s\<lparr> ip_x := ip_x s + dx s, ip_y := ip_y s + dy s \<rparr>"
    and v1: "is_valid s (ip_x s + dx s) (ip_y s + dy s)"
    using move_True [OF True] by simp_all
  have v1': "is_valid ?s1 (ip_x ?s1) (ip_y ?s1)"
    using v1 by (simp add: s1 is_valid_def)
  have st1: "stack ?s1 \<noteq> []" using st by (simp add: s1)
  have "jump s = jump_scan ?s1" using st True by (simp add: jump_def)
  with jump_scan_result [OF v1' st1] show ?thesis by (simp add: s1)
next
  case False
  assume st: "stack s \<noteq> []"
  have "jump s = Inr ((snd (move s))\<lparr> error := Some (lit ''jumped out of bounds'') \<rparr>)"
    using st False by (simp add: jump_def)
  then show ?thesis by (simp add: move_False [OF False])
qed

lemma dispatch_H: "dispatch (lit ''H'') batch s = jump (s\<lparr> dx := - 1, dy := 0 \<rparr>)"
  by (simp add: dispatch_def)

lemma dispatch_L: "dispatch (lit ''L'') batch s = jump (s\<lparr> dx := 1, dy := 0 \<rparr>)"
  by (simp add: dispatch_def)

lemma dispatch_K: "dispatch (lit ''K'') batch s = jump (s\<lparr> dx := 0, dy := - 1 \<rparr>)"
  by (simp add: dispatch_def)

lemma dispatch_J: "dispatch (lit ''J'') batch s = jump (s\<lparr> dx := 0, dy := 1 \<rparr>)"
  by (simp add: dispatch_def)

lemma jump_dir_result:
  "(stack s \<noteq> [] \<longrightarrow>
      (\<exists>s'. jump (s\<lparr> dx := a, dy := b \<rparr>) = Inr s' \<and> stack s' = stack s \<and> code s' = code s
           \<and> (error s' = Some (lit ''jumped out of bounds'')
               \<or> (error s' = error s \<and> is_valid s' (ip_x s') (ip_y s')
                   \<and> instruction s' = Inr (last (stack s))))))
   \<and> (stack s = [] \<longrightarrow>
      (\<exists>s'. jump (s\<lparr> dx := a, dy := b \<rparr>) = Inr s'
           \<and> error s' = Some (lit ''tried to pop from an empty stack'')
           \<and> ip_x s' = ip_x s \<and> ip_y s' = ip_y s \<and> code s' = code s \<and> stack s' = []))"
proof (intro conjI impI)
  assume "stack s \<noteq> []"
  then have "stack (s\<lparr> dx := a, dy := b \<rparr>) \<noteq> []" by simp
  from jump_result [OF this]
  obtain s' where "jump (s\<lparr> dx := a, dy := b \<rparr>) = Inr s'" "stack s' = stack s" "code s' = code s"
    "error s' = Some (lit ''jumped out of bounds'')
       \<or> (error s' = error s \<and> is_valid s' (ip_x s') (ip_y s')
           \<and> instruction s' = Inr (last (stack s)))"
    by auto
  then show "\<exists>s'. jump (s\<lparr> dx := a, dy := b \<rparr>) = Inr s' \<and> stack s' = stack s \<and> code s' = code s
           \<and> (error s' = Some (lit ''jumped out of bounds'')
               \<or> (error s' = error s \<and> is_valid s' (ip_x s') (ip_y s')
                   \<and> instruction s' = Inr (last (stack s))))"
    by (intro exI [of _ s']) simp
next
  assume "stack s = []"
  then show "\<exists>s'. jump (s\<lparr> dx := a, dy := b \<rparr>) = Inr s'
           \<and> error s' = Some (lit ''tried to pop from an empty stack'')
           \<and> ip_x s' = ip_x s \<and> ip_y s' = ip_y s \<and> code s' = code s \<and> stack s' = []"
    by (simp add: jump_def)
qed

text \<open>
  C5.  The scan of \<open>_jump\<close> is the total function \<open>jump_scan\<close>: every move takes the
  pointer one step closer to the edge of the grid (\<open>jump_measure\<close>), so the loop ends.
  For each of \<open>H L K J\<close>, with a stack that is not empty the instruction returns
  normally, with stack and grid as they were, and either the out-of-bounds error of the
  jump is set, or the pointer is on a cell of the grid that equals the top of the stack
  and no error has been added.  With an empty stack it sets the stack-underflow error
  and leaves the pointer where it was.
\<close>

theorem jump_terminates:
  "instr \<in> {lit ''H'', lit ''L'', lit ''K'', lit ''J''} \<Longrightarrow>
   (stack s \<noteq> [] \<longrightarrow>
      (\<exists>s'. dispatch instr batch s = Inr s' \<and> stack s' = stack s \<and> code s' = code s
           \<and> (error s' = Some (lit ''jumped out of bounds'')
               \<or> (error s' = error s \<and> is_valid s' (ip_x s') (ip_y s')
                   \<and> instruction s' = Inr (last (stack s))))))
   \<and> (stack s = [] \<longrightarrow>
      (\<exists>s'. dispatch instr batch s = Inr s'
           \<and> error s' = Some (lit ''tried to pop from an empty stack'')
           \<and> ip_x s' = ip_x s \<and> ip_y s' = ip_y s \<and> code s' = code s \<and> stack s' = []))"
proof -
  assume "instr \<in> {lit ''H'', lit ''L'', lit ''K'', lit ''J''}"
  then have "instr = lit ''H'' \<or> instr = lit ''L'' \<or> instr = lit ''K'' \<or> instr = lit ''J''"
    by blast
  then show ?thesis
  proof (elim disjE)
    assume i: "instr = lit ''H''"
    show ?thesis unfolding i dispatch_H by (rule jump_dir_result)
  next
    assume i: "instr = lit ''L''"
    show ?thesis unfolding i dispatch_L by (rule jump_dir_result)
  next
    assume i: "instr = lit ''K''"
    show ?thesis unfolding i dispatch_K by (rule jump_dir_result)
  next
    assume i: "instr = lit ''J''"
    show ?thesis unfolding i dispatch_J by (rule jump_dir_result)
  qed
qed

theorem jump_terminates_witness:
  "lit ''L'' \<in> {lit ''H'', lit ''L'', lit ''K'', lit ''J''}
   \<and> stack ((init [lit ''L  a''])\<lparr> stack := [Some (ord CHR ''a'')] \<rparr>) \<noteq> []
   \<and> (\<exists>s'. dispatch (lit ''L'') False ((init [lit ''L  a''])\<lparr> stack := [Some (ord CHR ''a'')] \<rparr>) = Inr s'
          \<and> (error s' = Some (lit ''jumped out of bounds'')
              \<or> instruction s' = Inr (Some (ord CHR ''a''))))
   \<and> (\<exists>s'. dispatch (lit ''L'') False (init [lit ''L  a'']) = Inr s'
          \<and> error s' = Some (lit ''tried to pop from an empty stack'') \<and> ip_x s' = 0 \<and> ip_y s' = 0)"
proof -
  let ?s = "(init [lit ''L  a''])\<lparr> stack := [Some (ord CHR ''a'')] \<rparr>"
  have m: "lit ''L'' \<in> {lit ''H'', lit ''L'', lit ''K'', lit ''J''}" by simp
  have st: "stack ?s \<noteq> []" by simp
  have e: "stack (init [lit ''L  a'']) = []" "ip_x (init [lit ''L  a'']) = 0" "ip_y (init [lit ''L  a'']) = 0"
    by (simp_all add: init_def)
  have 1: "\<exists>s'. dispatch (lit ''L'') False ?s = Inr s'
          \<and> (error s' = Some (lit ''jumped out of bounds'')
              \<or> instruction s' = Inr (Some (ord CHR ''a'')))"
    using jump_terminates [OF m, of ?s False] st by auto
  have 2: "\<exists>s'. dispatch (lit ''L'') False (init [lit ''L  a'']) = Inr s'
          \<and> error s' = Some (lit ''tried to pop from an empty stack'') \<and> ip_x s' = 0 \<and> ip_y s' = 0"
    using jump_terminates [OF m, of "init [lit ''L  a'']" False] e by auto
  show ?thesis by (intro conjI m st 1 2)
qed

text \<open>
  A jump that lands: \<open>L\<close> with the code of \<open>a\<close> on the stack, on the line \<open>L  a\<close>,
  stops on the \<open>a\<close> in column 3.
\<close>

lemma jump_example:
  "dispatch (lit ''L'') False ((init [lit ''L  a''])\<lparr> stack := [Some (ord CHR ''a'')] \<rparr>)
     = Inr ((init [lit ''L  a''])\<lparr> stack := [Some (ord CHR ''a'')], dx := 1, ip_x := 3 \<rparr>)"
  by code_simp

section \<open>Serialising and parsing the grid\<close>

lemma length_init_row: "length (init_row l) = COLUMNS"
  by (simp add: init_row_def)

lemma init_row_nth:
  "x < COLUMNS \<Longrightarrow> init_row l ! x = Some (if x < length l then l ! x else 32)"
  by (simp add: init_row_def)

lemma code_init: "code (init ls) = map init_row ls"
  by (simp add: init_def)

lemma row_to_string_Some:
  "\<forall>c\<in>set row. \<exists>k. c = Some k \<and> 0 \<le> k \<and> k < 0x110000 \<Longrightarrow>
   row_to_string row = Inr (map the row)"
proof (induction row)
  case Nil
  show ?case by simp
next
  case (Cons c cs)
  from Cons.prems obtain k where k: "c = Some k" "0 \<le> k" "k < 0x110000" by auto
  from Cons have "row_to_string cs = Inr (map the cs)" by simp
  with k show ?case by (simp add: py_chr_def)
qed

lemma init_row_cells:
  assumes "is_str l" and "c \<in> set (init_row l)"
  shows "\<exists>k. c = Some k \<and> 0 \<le> k \<and> k < 0x110000"
proof -
  from assms(2) obtain x where x: "x < COLUMNS" "c = init_row l ! x"
    by (auto simp: in_set_conv_nth length_init_row)
  show ?thesis
  proof (cases "x < length l")
    case True
    then have "l ! x \<in> set l" by simp
    with assms(1) have "0 \<le> l ! x \<and> l ! x < 0x110000" by (simp add: is_str_def list_all_iff)
    with x True show ?thesis by (simp add: init_row_nth)
  next
    case False
    with x show ?thesis by (simp add: init_row_nth)
  qed
qed

lemma row_to_string_init_row:
  "is_str l \<Longrightarrow> row_to_string (init_row l) = Inr (map the (init_row l))"
  by (rule row_to_string_Some) (blast dest: init_row_cells)

lemma init_row_idem: "init_row (map the (init_row l)) = init_row l"
proof (rule nth_equalityI)
  show "length (init_row (map the (init_row l))) = length (init_row l)"
    by (simp add: length_init_row)
next
  fix x assume "x < length (init_row (map the (init_row l)))"
  then have x: "x < COLUMNS" by (simp add: length_init_row)
  then show "init_row (map the (init_row l)) ! x = init_row l ! x"
    by (simp add: init_row_nth length_init_row)
qed

lemma rows_to_strings_init:
  "\<forall>l\<in>set ls. is_str l \<Longrightarrow>
   rows_to_strings (map init_row ls) = Inr (map (\<lambda>l. map the (init_row l)) ls)"
  by (induction ls) (simp_all add: row_to_string_init_row)

text \<open>
  C6.  For the grid built by the constructor from any source lines (Python strings, of
  any length, so in particular of length at most 80), \<open>code_to_string\<close> returns a
  list of row strings without raising, and the constructor applied to these strings
  builds the same grid again, cell for cell.
\<close>

theorem serialize_parse_roundtrip:
  "\<forall>l\<in>set ls. is_str l \<Longrightarrow>
   \<exists>ss. code_to_string (init ls) = Inr ss \<and> code (init ss) = code (init ls)"
proof -
  assume a: "\<forall>l\<in>set ls. is_str l"
  let ?ss = "map (\<lambda>l. map the (init_row l)) ls"
  have 1: "code_to_string (init ls) = Inr ?ss"
    using rows_to_strings_init [OF a] by (simp add: code_to_string_def code_init)
  have 2: "code (init ?ss) = code (init ls)"
    by (simp add: code_init init_row_idem)
  from 1 2 show ?thesis by blast
qed

theorem serialize_parse_roundtrip_witness:
  "is_str (lit ''lq'') \<and> is_str (lit ''ab'')
   \<and> (\<exists>ss. code_to_string (init [lit ''lq'', lit ''ab'']) = Inr ss
          \<and> code (init ss) = code (init [lit ''lq'', lit ''ab'']))"
proof -
  have 1: "is_str (lit ''lq'')" and 2: "is_str (lit ''ab'')"
    by (simp_all add: is_str_def)
  then have h: "\<forall>l\<in>set [lit ''lq'', lit ''ab'']. is_str l" by simp
  from 1 2 serialize_parse_roundtrip [OF h] show ?thesis by (intro conjI)
qed

section \<open>The pointer stays inside the grid\<close>

lemma grid_inv_cong:
  "code t = code s \<Longrightarrow> ip_x t = ip_x s \<Longrightarrow> ip_y t = ip_y s \<Longrightarrow> grid_inv n t = grid_inv n s"
  by (simp add: grid_inv_def is_valid_def)

lemma grid_inv_upd:
  "grid_inv n (s\<lparr> dx := a \<rparr>) = grid_inv n s"
  "grid_inv n (s\<lparr> dy := a \<rparr>) = grid_inv n s"
  "grid_inv n (s\<lparr> stack := st \<rparr>) = grid_inv n s"
  "grid_inv n (s\<lparr> stdout := out \<rparr>) = grid_inv n s"
  "grid_inv n (s\<lparr> stdin := inp \<rparr>) = grid_inv n s"
  "grid_inv n (s\<lparr> needs_input := b \<rparr>) = grid_inv n s"
  "grid_inv n (s\<lparr> error := e \<rparr>) = grid_inv n s"
  "grid_inv n (s\<lparr> console := con \<rparr>) = grid_inv n s"
  by (rule grid_inv_cong; simp)+

lemma put_fields:
  "ip_x (put v x y s) = ip_x s" "ip_y (put v x y s) = ip_y s"
  "length (code (put v x y s)) = length (code s)"
  by (simp_all add: put_def)

lemma put_row_length:
  "length (code (put v x y s) ! i) = length (code s ! i)"
proof (cases "is_valid s x y")
  case True
  then have "nat y < length (code s)" by (auto simp: is_valid_def)
  then show ?thesis using True by (cases "i = nat y") (simp_all add: put_def)
next
  case False
  then show ?thesis by (simp add: put_def)
qed

lemma grid_inv_put: "grid_inv n (put v x y s) = grid_inv n s"
proof -
  have "(\<forall>row \<in> set (code (put v x y s)). length row = COLUMNS)
        = (\<forall>row \<in> set (code s). length row = COLUMNS)"
    by (simp add: all_set_conv_all_nth put_fields put_row_length)
  moreover have "is_valid (put v x y s) a b = is_valid s a b" for a b
    by (simp add: is_valid_def put_fields put_row_length)
  moreover have "(code (put v x y s) = []) = (code s = [])"
    using put_fields(3) [of v x y s] by (simp only: length_0_conv [symmetric])
  ultimately show ?thesis by (simp add: grid_inv_def put_fields)
qed

lemma grid_inv_move: "grid_inv n s \<Longrightarrow> grid_inv n (snd (move s))"
proof (cases "fst (move s)")
  case True
  assume g: "grid_inv n s"
  from move_True [OF True]
  have s1: "snd (move s) = s\<lparr> ip_x := ip_x s + dx s, ip_y := ip_y s + dy s \<rparr>"
    and v: "is_valid s (ip_x s + dx s) (ip_y s + dy s)" by simp_all
  from v have "code s \<noteq> []" by (auto simp: is_valid_def)
  with g v show ?thesis by (simp add: s1 grid_inv_def is_valid_def)
next
  case False
  assume g: "grid_inv n s"
  have "grid_inv n ((snd (move s))\<lparr> error := None \<rparr>)"
    using g by (simp add: move_False [OF False] grid_inv_upd)
  then show ?thesis by (simp add: grid_inv_upd)
qed

lemma grid_inv_jump_scan: "grid_inv n s \<Longrightarrow> grid_inv n (state_of (jump_scan s))"
proof (induction s rule: jump_scan.induct)
  case (1 s)
  note g = \<open>grid_inv n s\<close>
  show ?case
  proof (cases "instruction s")
    case (Inl e)
    then have "jump_scan s = Inl (e, s)" by (subst jump_scan.simps) simp
    with g show ?thesis by (simp add: state_of_def)
  next
    case c: (Inr c)
    show ?thesis
    proof (cases "index (stack s) (- 1)")
      case (Inl e)
      then have "jump_scan s = Inl (e, s)" by (subst jump_scan.simps) (simp add: c)
      with g show ?thesis by (simp add: state_of_def)
    next
      case t: (Inr tos)
      show ?thesis
      proof (cases "c = tos")
        case True
        then have "jump_scan s = Inr s" by (subst jump_scan.simps) (simp add: c t)
        with g show ?thesis by (simp add: state_of_def)
      next
        case ne: False
        show ?thesis
        proof (cases "fst (move s)")
          case True
          have "jump_scan s = jump_scan (snd (move s))"
            using ne True by (subst jump_scan.simps) (simp add: c t)
          with "1.IH" [OF c t ne True grid_inv_move [OF g]] show ?thesis by simp
        next
          case False
          have "jump_scan s = Inr ((snd (move s))\<lparr> error := Some (lit ''jumped out of bounds'') \<rparr>)"
            using ne False by (subst jump_scan.simps) (simp add: c t)
          with grid_inv_move [OF g] show ?thesis by (simp add: state_of_def grid_inv_upd)
        qed
      qed
    qed
  qed
qed

lemma grid_inv_jump: "grid_inv n s \<Longrightarrow> grid_inv n (state_of (jump s))"
  using grid_inv_move [of n s] grid_inv_jump_scan [of n "snd (move s)"]
  by (simp add: jump_def state_of_def grid_inv_upd)

lemma grid_inv_print: "grid_inv n s \<Longrightarrow> grid_inv n (state_of (print v batch s))"
  by (simp add: print_def state_of_def grid_inv_upd split: sum.split bool.split exn.split)

lemma grid_inv_add: "grid_inv n s \<Longrightarrow> grid_inv n (state_of (add v s))"
  by (simp add: add_def state_of_def grid_inv_upd split: option.split)

lemma grid_inv_subtract: "grid_inv n s \<Longrightarrow> grid_inv n (state_of (subtract v s))"
  by (simp add: subtract_def state_of_def grid_inv_upd split: option.split)

lemma grid_inv_rotate: "grid_inv n (rotate cw s) = grid_inv n s"
  by (rule grid_inv_cong) (simp_all add: rotate_def Let_def)

lemma grid_inv_dispatch: "grid_inv n s \<Longrightarrow> grid_inv n (state_of (dispatch instr batch s))"
  unfolding dispatch_def
  by (simp add: grid_inv_jump grid_inv_print grid_inv_add grid_inv_subtract grid_inv_upd
      grid_inv_put grid_inv_rotate put_above_def put_below_def delete_def duplicate_def
      split: list.split option.split)
     (simp add: state_of_def grid_inv_upd grid_inv_put grid_inv_rotate)

lemma grid_inv_finish:
  "grid_inv n s2 \<Longrightarrow>
   grid_inv n (state_of (case blocked s2 of
                         Inl e \<Rightarrow> Inl (e, s2)
                       | Inr True \<Rightarrow> Inr s2
                       | Inr False \<Rightarrow> Inr (snd (move s2))))"
  by (simp add: state_of_def grid_inv_move split: sum.split bool.split)

lemma grid_inv_dispatch_finish:
  assumes "grid_inv n s1"
  shows "grid_inv n (state_of (case dispatch ch batch s1 of
                               Inl r \<Rightarrow> Inl r
                             | Inr s2 \<Rightarrow>
                                 (case blocked s2 of
                                    Inl e \<Rightarrow> Inl (e, s2)
                                  | Inr True \<Rightarrow> Inr s2
                                  | Inr False \<Rightarrow> Inr (snd (move s2)))))"
proof (cases "dispatch ch batch s1")
  case (Inl r)
  with grid_inv_dispatch [OF assms, of ch batch] show ?thesis by simp
next
  case (Inr s2)
  with grid_inv_dispatch [OF assms, of ch batch] have "grid_inv n s2" by (simp add: state_of_def)
  from grid_inv_finish [OF this] Inr show ?thesis by simp
qed

lemma grid_inv_chr_dispatch:
  assumes "grid_inv n s1"
  shows "grid_inv n (state_of (case py_chr instr of
                               Inl e \<Rightarrow> Inl (e, s1)
                             | Inr ch \<Rightarrow>
                                 (case dispatch ch batch s1 of
                                    Inl r \<Rightarrow> Inl r
                                  | Inr s2 \<Rightarrow>
                                      (case blocked s2 of
                                         Inl e \<Rightarrow> Inl (e, s2)
                                       | Inr True \<Rightarrow> Inr s2
                                       | Inr False \<Rightarrow> Inr (snd (move s2))))))"
proof (cases "py_chr instr")
  case (Inl e)
  with assms show ?thesis by (simp add: state_of_def)
next
  case (Inr ch)
  with grid_inv_dispatch_finish [OF assms] show ?thesis by simp
qed

lemma grid_inv_step_tail:
  assumes "grid_inv n (state_of r1)"
  shows "grid_inv n (state_of (case r1 of
                               Inl r \<Rightarrow> Inl r
                             | Inr s1 \<Rightarrow>
                                 (case py_chr instr of
                                    Inl e \<Rightarrow> Inl (e, s1)
                                  | Inr ch \<Rightarrow>
                                      (case dispatch ch batch s1 of
                                         Inl r \<Rightarrow> Inl r
                                       | Inr s2 \<Rightarrow>
                                           (case blocked s2 of
                                              Inl e \<Rightarrow> Inl (e, s2)
                                            | Inr True \<Rightarrow> Inr s2
                                            | Inr False \<Rightarrow> Inr (snd (move s2)))))))"
proof (cases r1)
  case (Inl r)
  with assms show ?thesis by simp
next
  case (Inr s1)
  with assms have "grid_inv n s1" by (simp add: state_of_def)
  from grid_inv_chr_dispatch [OF this] Inr show ?thesis by simp
qed

lemma grid_inv_error_set:
  "grid_inv n s \<Longrightarrow>
   grid_inv n (state_of (if printable then Inr s
                       else case to_printable instr of
                              Inl e \<Rightarrow> Inl (e, s)
                            | Inr t \<Rightarrow>
                                Inr (s\<lparr> error := Some (lit ''invalid instruction: '' @ t) \<rparr>)))"
  by (simp add: state_of_def grid_inv_upd split: sum.split)

lemma grid_inv_step: "grid_inv n s \<Longrightarrow> grid_inv n (state_of (step batch s))"
proof -
  assume g: "grid_inv n s"
  show ?thesis
  proof (cases "blocked s")
    case (Inl e)
    with g show ?thesis by (simp add: step_def state_of_def)
  next
    case b: (Inr b)
    show ?thesis
    proof (cases b)
      case True
      with g b show ?thesis by (simp add: step_def state_of_def)
    next
      case False
      with b have bf: "blocked s = Inr False" by simp
      show ?thesis
      proof (cases "instruction s")
        case (Inl e)
        with g bf show ?thesis by (simp add: step_def state_of_def)
      next
        case i: (Inr instr)
        show ?thesis
        proof (cases "is_printable instr False")
          case (Inl e)
          with g bf i show ?thesis by (simp add: step_def state_of_def)
        next
          case p: (Inr printable)
          show ?thesis
            unfolding step_def bf i p sum.case bool.case
            by (rule grid_inv_step_tail) (rule grid_inv_error_set [OF g])
        qed
      qed
    qed
  qed
qed

lemma grid_inv_input_char: "grid_inv n (input_char c s) = grid_inv n s"
  by (rule grid_inv_cong) (simp_all add: input_char_def)

lemma grid_inv_input_string: "grid_inv n (input_string str s) = grid_inv n s"
  unfolding input_string_def
  by (induction str arbitrary: s) (simp_all add: grid_inv_input_char)

lemma grid_inv_apply_call: "grid_inv n s \<Longrightarrow> grid_inv n (apply_call c s)"
  by (cases c) (simp_all add: grid_inv_step grid_inv_input_char grid_inv_input_string)

lemma grid_inv_drive: "grid_inv n s \<Longrightarrow> grid_inv n (drive calls s)"
  unfolding drive_def
  by (induction calls arbitrary: s) (simp_all add: grid_inv_apply_call)

lemma grid_inv_init: "grid_inv (length ls) (init ls)"
proof (cases ls)
  case Nil
  then show ?thesis by (simp add: grid_inv_def init_def)
next
  case (Cons l ls')
  then show ?thesis
    by (simp add: grid_inv_def init_def is_valid_def length_init_row) (simp add: COLUMNS_def)
qed

lemma blocked_empty_grid: "code s = [] \<Longrightarrow> blocked s = Inl IndexError"
  by (simp add: blocked_def is_done_def instruction_def index_def)

lemma move_checked:
  "fst (move s) = ((dx s \<noteq> 0 \<or> dy s \<noteq> 0) \<and> is_valid s (ip_x s + dx s) (ip_y s + dy s))"
  "ip_x (snd (move s)) = (if fst (move s) then ip_x s + dx s else ip_x s)"
  "ip_y (snd (move s)) = (if fst (move s) then ip_y s + dy s else ip_y s)"
  by (simp_all add: move_def)

lemma grid_inv_valid:
  assumes "grid_inv n s" and "0 < n"
  shows "is_valid s (ip_x s) (ip_y s)"
    and "0 \<le> ip_y s" and "ip_y s < int n" and "0 \<le> ip_x s" and "ip_x s < int COLUMNS"
proof -
  from assms have ne: "code s \<noteq> []" and len: "length (code s) = n"
    by (auto simp: grid_inv_def)
  with assms(1) show v: "is_valid s (ip_x s) (ip_y s)" by (simp add: grid_inv_def)
  then have "code s ! nat (ip_y s) \<in> set (code s)" by (auto simp: is_valid_def)
  with assms(1) have "length (code s ! nat (ip_y s)) = COLUMNS" by (simp add: grid_inv_def)
  with v len show "0 \<le> ip_y s" "ip_y s < int n" "0 \<le> ip_x s" "ip_x s < int COLUMNS"
    by (simp_all add: is_valid_def)
qed

text \<open>
  C9.  Take a machine built by the constructor from at least one source line and driven
  by any sequence of calls of \<open>step\<close>, \<open>input_char\<close> and \<open>input_string\<close>.  In
  every state it reaches, blocked or not, the grid still has one row per source line and
  the instruction pointer is a valid cell of it: the row exists and the column is below
  \<open>COLUMNS\<close>.  A move is bounds-checked before it is committed: \<open>_move\<close> succeeds
  exactly when a direction is set and \<open>is_valid\<close> accepts the target, the pointer
  changes only then, and it is on a cell of the grid afterwards.
\<close>

theorem cursor_valid_nonempty_program:
  "ls \<noteq> [] \<Longrightarrow> s = drive calls (init ls) \<Longrightarrow>
   is_valid s (ip_x s) (ip_y s)
   \<and> length (code s) = length ls
   \<and> 0 \<le> ip_y s \<and> ip_y s < int (length (code s))
   \<and> 0 \<le> ip_x s \<and> ip_x s < int COLUMNS
   \<and> fst (move s) = ((dx s \<noteq> 0 \<or> dy s \<noteq> 0) \<and> is_valid s (ip_x s + dx s) (ip_y s + dy s))
   \<and> ip_x (snd (move s)) = (if fst (move s) then ip_x s + dx s else ip_x s)
   \<and> ip_y (snd (move s)) = (if fst (move s) then ip_y s + dy s else ip_y s)
   \<and> is_valid (snd (move s)) (ip_x (snd (move s))) (ip_y (snd (move s)))"
proof -
  assume ls: "ls \<noteq> []" and s: "s = drive calls (init ls)"
  have g: "grid_inv (length ls) s" unfolding s by (rule grid_inv_drive) (rule grid_inv_init)
  have n: "0 < length ls" using ls by simp
  have len: "length (code s) = length ls" using g by (simp add: grid_inv_def)
  have m: "is_valid (snd (move s)) (ip_x (snd (move s))) (ip_y (snd (move s)))"
    using grid_inv_valid(1) [OF grid_inv_move [OF g] n] .
  from grid_inv_valid [OF g n] len m show ?thesis
    by (simp add: move_checked)
qed

theorem cursor_valid_nonempty_program_witness:
  "[lit ''lG'', lit ''  ''] \<noteq> []
   \<and> is_valid (drive [Step False, Input_char 65, Step True] (init [lit ''lG'', lit ''  '']))
        (ip_x (drive [Step False, Input_char 65, Step True] (init [lit ''lG'', lit ''  ''])))
        (ip_y (drive [Step False, Input_char 65, Step True] (init [lit ''lG'', lit ''  ''])))
   \<and> ip_x (drive [Step False, Input_char 65, Step True] (init [lit ''lG'', lit ''  ''])) = 2
   \<and> ip_y (drive [Step False, Input_char 65, Step True] (init [lit ''lG'', lit ''  ''])) = 0
   \<and> blocked (drive [Step False, Input_char 65, Step True] (init [lit ''lG'', lit ''  '']))
       = Inr False"
proof -
  let ?s = "drive [Step False, Input_char 65, Step True] (init [lit ''lG'', lit ''  ''])"
  have ne: "[lit ''lG'', lit ''  ''] \<noteq> []" by simp
  have b: "blocked ?s = Inr False" by code_simp
  have x: "ip_x ?s = 2" by code_simp
  have y: "ip_y ?s = 0" by code_simp
  from cursor_valid_nonempty_program [OF ne refl] have "is_valid ?s (ip_x ?s) (ip_y ?s)"
    by (rule conjunct1)
  with ne b x y show ?thesis by (intro conjI)
qed

text \<open>
  Without the first source line the property fails.  The machine built from no lines
  has not run a single call; no error is set, it does not wait for input, and neither
  \<open>done\<close> nor \<open>blocked\<close> returns true (both raise); yet its pointer (0,0) is not a
  cell of the grid, which has no rows.
\<close>

theorem empty_program_cursor_invalid:
  "drive [] (init []) = init []
   \<and> error (init []) = None
   \<and> needs_input (init []) = False
   \<and> is_done (init []) \<noteq> Inr True
   \<and> blocked (init []) \<noteq> Inr True
   \<and> ip_x (init []) = 0 \<and> ip_y (init []) = 0
   \<and> length (code (init [])) = 0
   \<and> \<not> is_valid (init []) (ip_x (init [])) (ip_y (init []))
   \<and> \<not> (0 \<le> ip_y (init []) \<and> ip_y (init []) < int (length (code (init []))))"
  by code_simp

section \<open>Cells that are not printable\<close>

text \<open>
  A cell under the pointer that holds a code point outside 32..126 makes \<open>step\<close> set
  the invalid-instruction error and return with everything else as it was: the method
  does not return after the first assignment, but the instruction matches no branch of
  the dispatch, whose last branch sets the error again, now with the character itself.
  This covers the codes that \<open>chr\<close> accepts, from 0 to \<open>0x10FFFF\<close>.
\<close>

lemma step_nonprintable_in_range:
  assumes nb: "blocked s = Inr False" and i: "instruction s = Inr (Some c)"
    and r: "0 \<le> c \<and> c < 32 \<or> 126 < c \<and> c < 0x110000"
  shows "step batch s = Inr (s\<lparr> error := Some (lit ''invalid instruction: '' @ [c]) \<rparr>)"
proof -
  have p: "is_printable (Some c) False = Inr False"
    using r by (auto simp: is_printable_def)
  have "\<exists>t. to_printable (Some c) = Inr t"
    using p by (simp add: to_printable_def split: if_split)
  then obtain t where t: "to_printable (Some c) = Inr t" ..
  have ch: "py_chr (Some c) = Inr [c]"
    using r by (auto simp: py_chr_def)
  let ?s1 = "s\<lparr> error := Some (lit ''invalid instruction: '' @ t) \<rparr>"
  have d: "dispatch [c] batch ?s1 = Inr (s\<lparr> error := Some (lit ''invalid instruction: '' @ [c]) \<rparr>)"
  proof -
    have D: "dispatch [c] batch s' = Inr (s'\<lparr> error := Some (lit ''invalid instruction: '' @ [c]) \<rparr>)"
      if "c < 32 \<or> 126 < c" for s'
      using that by (elim disjE) (simp_all add: dispatch_def)
    have rr: "c < 32 \<or> 126 < c" using r by auto
    from D [OF rr, of ?s1] show ?thesis by simp
  qed
  have b: "blocked (s\<lparr> error := Some (lit ''invalid instruction: '' @ [c]) \<rparr>) = Inr True"
    using blocked_error [OF nb, of "lit ''invalid instruction: '' @ [c]"] by simp
  show ?thesis
    unfolding step_def nb i p t ch sum.case bool.case if_False d b ..
qed

end
